theory Spec2Isabelle
  imports Complex_Main "HOL-Library.AList"
begin

section \<open>Peak finder of the TIC widget\<close>

text \<open>
  \<^verbatim>\<open>TICWidget._find_Peak\<close> (src/src/view/TICWidget.py, lines 158-194) works on the
  intensity array \<^verbatim>\<open>self._ints\<close>. Intensities are modelled as reals; IEEE NaN and
  infinities inside the data are outside the model. The running \<^verbatim>\<open>peakValue\<close> starts
  at \<^verbatim>\<open>-np.inf\<close>, which is below every real, so it gets a value of its own.
\<close>

datatype peak_value = NegInf | Val real

fun pv_less :: "peak_value \<Rightarrow> real \<Rightarrow> bool" where
  "pv_less NegInf d = True"
| "pv_less (Val v) d = (v < d)"

text \<open>
  The inner loop \<^verbatim>\<open>for j in range(indx, len(data))\<close>: it is run on the rest of the data
  from position \<^verbatim>\<open>indx\<close> on, with \<^verbatim>\<open>j\<close> counting along. It ends by the first
  \<^verbatim>\<open>break\<close> (a larger value), by the second \<^verbatim>\<open>break\<close> (a smaller value, found at
  \<^verbatim>\<open>j\<close>), or by running off the end of the data.
\<close>

datatype scan_result = Higher | Descent nat | Exhausted

fun inner_scan :: "real \<Rightarrow> real list \<Rightarrow> nat \<Rightarrow> scan_result" where
  "inner_scan peakValue [] j = Exhausted"
| "inner_scan peakValue (d # ds) j =
     (if peakValue < d then Higher
      else if peakValue = d then inner_scan peakValue ds (Suc j)
      else Descent j)"

text \<open>
  The outer loop \<^verbatim>\<open>for indx in range(0, len(data), 1)\<close>. Python takes \<^verbatim>\<open>indx\<close> from
  the range at every round, so the assignment \<^verbatim>\<open>indx = j\<close> in the body only changes
  which element the closing \<^verbatim>\<open>peakValue = data[indx]\<close> of the same round reads; the
  next round continues with the next element of the range. \<^verbatim>\<open>maxIndices\<close> is the array
  of marks, \<^verbatim>\<open>np.floor(abs(indx - j) / 2)\<close> is the integer half of the distance.
\<close>

fun outer_loop :: "real list \<Rightarrow> nat list \<Rightarrow> peak_value \<Rightarrow> bool list \<Rightarrow> bool list" where
  "outer_loop data [] peakValue maxIndices = maxIndices"
| "outer_loop data (indx # rest) peakValue maxIndices =
     (if pv_less peakValue (data ! indx) then
        (case inner_scan (data ! indx) (drop indx data) indx of
           Descent j \<Rightarrow>
             outer_loop data rest (Val (data ! j))
               (maxIndices[indx + nat \<bar>int indx - int j\<bar> div 2 := True])
         | Higher \<Rightarrow> outer_loop data rest (Val (data ! indx)) maxIndices
         | Exhausted \<Rightarrow> outer_loop data rest (Val (data ! indx)) maxIndices)
      else outer_loop data rest (Val (data ! indx)) maxIndices)"

text \<open>
  \<^verbatim>\<open>np.where(maxIndices)[0]\<close> lists the marked positions in ascending order.
  \<^verbatim>\<open>sorted(maxIndices, key=lambda x: data[x], reverse=True)\<close> is a stable sort by
  descending key: elements with equal keys keep their order. That is the stable
  insertion sort \<^const>\<open>sort_key\<close> on the negated key.
\<close>

definition marked :: "real list \<Rightarrow> bool list" where
  "marked data =
     outer_loop data [0..<length data] NegInf (replicate (length data) False)"

definition np_where :: "bool list \<Rightarrow> nat list" where
  "np_where maxIndices = filter (\<lambda>i. maxIndices ! i) [0..<length maxIndices]"

definition find_Peak :: "real list \<Rightarrow> nat list" where
  "find_Peak data = sort_key (\<lambda>x. - (data ! x)) (np_where (marked data))"

section \<open>numpy operations the widgets call\<close>

text \<open>
  Exceptions of the source are values. \<open>NonFinite\<close> is not a Python exception: it marks
  a float result (a division by zero) that is infinite or NaN and so has no real value.
\<close>

datatype error = ValueError | IndexError | KeyError | NonFinite

text \<open>
  \<^verbatim>\<open>np.searchsorted(a, v, side=...)\<close> on an ascending array returns the insertion point:
  with \<^verbatim>\<open>side="left"\<close> the first position whose element is not below \<open>v\<close>, with
  \<^verbatim>\<open>side="right"\<close> the first position whose element is above \<open>v\<close>. On an array that
  is not ascending numpy's binary search returns some position from 0 to the length of
  the array; the functions below then return the length of the longest prefix below
  (not above) \<open>v\<close>, which is in the same bounds.
\<close>

definition searchsorted_left :: "real list \<Rightarrow> real \<Rightarrow> nat" where
  "searchsorted_left a v = length (takeWhile (\<lambda>x. x < v) a)"

definition searchsorted_right :: "real list \<Rightarrow> real \<Rightarrow> nat" where
  "searchsorted_right a v = length (takeWhile (\<lambda>x. x \<le> v) a)"

text \<open>The slice \<^verbatim>\<open>a[left:right]\<close> with both bounds non-negative; it is empty when
  \<open>right \<le> left\<close> and is cut at the end of the array.\<close>

definition slice :: "'a list \<Rightarrow> nat \<Rightarrow> nat \<Rightarrow> 'a list" where
  "slice a left right = drop left (take right a)"

text \<open>\<^verbatim>\<open>np.amax(a, initial=i)\<close>: the maximum of \<open>i\<close> and all elements.\<close>

definition amax_initial :: "real list \<Rightarrow> real \<Rightarrow> real" where
  "amax_initial a initial = fold max a initial"

text \<open>\<^verbatim>\<open>np.amin\<close> and \<^verbatim>\<open>np.amax\<close> raise ValueError on an empty array.\<close>

definition amin :: "real list \<Rightarrow> error + real" where
  "amin a = (case a of [] \<Rightarrow> Inl ValueError | x # xs \<Rightarrow> Inr (fold min xs x))"

definition amax :: "real list \<Rightarrow> error + real" where
  "amax a = (case a of [] \<Rightarrow> Inl ValueError | x # xs \<Rightarrow> Inr (fold max xs x))"

text \<open>Indexing \<^verbatim>\<open>a[i]\<close> with a Python integer: a negative index counts from the end.\<close>

definition np_get :: "real list \<Rightarrow> int \<Rightarrow> error + real" where
  "np_get a i =
     (let n = int (length a); k = (if i < 0 then n + i else i)
      in if 0 \<le> k \<and> k < n then Inr (a ! nat k) else Inl IndexError)"

section \<open>Range reducer and autoscale\<close>

text \<open>
  The window \<^verbatim>\<open>x_range\<close> of both \<^verbatim>\<open>_autoscaleYAxis\<close> methods (ErrorWidget.py lines
  111-113, TICWidget.py lines 124-126): the range of the bottom axis, replaced by the
  extent of the data when it is the list \<^verbatim>\<open>[0, 1]\<close>.
\<close>

definition x_range_of :: "real \<times> real \<Rightarrow> real list \<Rightarrow> error + real \<times> real" where
  "x_range_of axis_range xs =
     (if axis_range = (0, 1) then
        (case amin xs of Inl e \<Rightarrow> Inl e
         | Inr lo \<Rightarrow> (case amax xs of Inl e \<Rightarrow> Inl e | Inr hi \<Rightarrow> Inr (lo, hi)))
      else Inr axis_range)"

text \<open>\<^verbatim>\<open>ErrorWidget._getMaxMassErrorInRange\<close> (ErrorWidget.py lines 118-138).\<close>

definition getMaxMassErrorInRange :: "real list \<Rightarrow> real list \<Rightarrow> real \<times> real \<Rightarrow> real" where
  "getMaxMassErrorInRange mzs ppm xrange =
     (let left = searchsorted_left mzs (fst xrange);
          right = searchsorted_right mzs (snd xrange)
      in amax_initial (map abs (slice ppm left right)) 1)"

text \<open>
  Calls into the plotting toolkit are recorded in the order the widget makes them; what
  the toolkit does with them is not part of the widget.
\<close>

record label =
  label_text :: real
  label_x :: real
  label_y :: real

datatype call =
    AddItem label
  | RemoveItem label
  | SetYRange real real
  | PlotClear
  | AddPlotData "real list" "real list"

text \<open>\<^verbatim>\<open>ErrorWidget._autoscaleYAxis\<close> (ErrorWidget.py lines 110-116).\<close>

record error_widget =
  mzs :: "real list"
  ppm :: "real list"
  ew_currMaxY :: "real option"
  ew_calls :: "call list"


section \<open>The TIC widget\<close>

text \<open>
  The attributes of \<^verbatim>\<open>TICWidget\<close> that its methods read and write. The dictionary
  \<^verbatim>\<open>_peak_labels\<close> is an association list in insertion order. The toolkit's view is
  what the widget reads from it: the range of the bottom axis, the width of a pixel in
  view coordinates, the device rectangle of a label and the intersection test on such
  rectangles.
\<close>

record tic =
  peak_labels :: "(nat \<times> label) list"
  existTIC :: bool
  rts :: "real list"
  ints :: "real list"
  peak_indices :: "nat list"
  currentIntensitiesInRange :: "real list"
  currMaxY :: "real option"
  calls :: "call list"

record 'r toolkit =
  axis_range :: "real \<times> real"
  pixel_width :: real
  device_rect :: "label \<Rightarrow> 'r"
  intersects :: "'r \<Rightarrow> 'r \<Rightarrow> bool"

definition init_tic :: tic where
  "init_tic = \<lparr>peak_labels = [], existTIC = True, rts = [], ints = [], peak_indices = [],
     currentIntensitiesInRange = [], currMaxY = None, calls = []\<rparr>"

definition checkExistTIC :: "tic \<Rightarrow> tic" where
  "checkExistTIC w = (if length (rts w) = 0 then w\<lparr>existTIC := False\<rparr> else w)"

definition rts_in_min :: "tic \<Rightarrow> tic" where
  "rts_in_min w = w\<lparr>rts := map (\<lambda>x. x / 60) (rts w)\<rparr>"

text \<open>
  \<^verbatim>\<open>_rts_in_min\<close> and \<^verbatim>\<open>_relative_ints\<close> divide in floating point; the model
  divides exactly, which is what the code computes where the quotients are representable
  (as 60 / 60 or 1 / 4 * 100). With a maximum of 0 the division yields NaN for the
  maximal element itself and the code goes on with an array that holds no number; the
  model ends there with \<open>NonFinite\<close>.
\<close>

definition relative_ints :: "tic \<Rightarrow> error + tic" where
  "relative_ints w =
     (case amax (ints w) of Inl e \<Rightarrow> Inl e
      | Inr maxInt \<Rightarrow>
          if maxInt = 0 then Inl NonFinite
          else Inr (w\<lparr>ints := map (\<lambda>x. (x / maxInt) * 100) (ints w)\<rparr>))"

text \<open>\<^verbatim>\<open>_getMaxIntensityInRange\<close> (TICWidget.py lines 132-152) also stores the slice.\<close>

definition getMaxIntensityInRange :: "tic \<Rightarrow> real \<times> real \<Rightarrow> tic \<times> real" where
  "getMaxIntensityInRange w xrange =
     (let left = searchsorted_left (rts w) (fst xrange);
          right = searchsorted_right (rts w) (snd xrange)
      in (w\<lparr>currentIntensitiesInRange := slice (ints w) left right\<rparr>,
          amax_initial (slice (ints w) left right) 1))"

text \<open>\<^verbatim>\<open>_clear_labels\<close> (lines 241-247): every label of the dictionary is handed to
  \<^verbatim>\<open>removeItem\<close>, then the dictionary is replaced by an empty one.\<close>

definition clear_labels :: "tic \<Rightarrow> tic" where
  "clear_labels w =
     w\<lparr>calls := calls w @ map (\<lambda>(label_id, l). RemoveItem l) (peak_labels w),
       peak_labels := []\<rparr>"

text \<open>\<^verbatim>\<open>_remove_label\<close> (lines 228-239); \<^verbatim>\<open>del\<close> of a missing key raises KeyError.\<close>

definition remove_label :: "nat \<Rightarrow> tic \<Rightarrow> error + tic" where
  "remove_label label_id w =
     (case map_of (peak_labels w) label_id of
        None \<Rightarrow> Inl KeyError
      | Some l \<Rightarrow>
          Inr (w\<lparr>calls := calls w @ [RemoveItem l],
                 peak_labels := AList.delete label_id (peak_labels w)\<rparr>))"

text \<open>
  One round of the loop of \<^verbatim>\<open>_label_clashes\<close> (lines 278-307) for the key
  \<^verbatim>\<open>exist_label\<close>: the new value of \<^verbatim>\<open>clash\<close>, and whether the round ended in
  \<^verbatim>\<open>break\<close>.
\<close>

definition clash_round ::
  "'r toolkit \<Rightarrow> (nat \<times> label) list \<Rightarrow> nat \<Rightarrow> real \<Rightarrow> nat \<Rightarrow> bool \<Rightarrow> error + bool \<times> bool" where
  "clash_round tk labels new_label limit_distance exist_label clash =
     (if exist_label \<noteq> new_label then
        (case map_of labels new_label of
           None \<Rightarrow> Inl KeyError
         | Some nl \<Rightarrow>
            (case map_of labels exist_label of
               None \<Rightarrow> Inl KeyError
             | Some el \<Rightarrow>
                 (let new_label_rect = device_rect tk nl;
                      exist_label_rect = device_rect tk el
                  in if \<not> intersects tk new_label_rect exist_label_rect then
                       (let distance = \<bar>label_x nl - label_x el\<bar>
                        in if distance < limit_distance then Inr (True, True)
                           else Inr (False, False))
                     else if intersects tk new_label_rect exist_label_rect then Inr (True, True)
                     else Inr (clash, False))))
      else
        (if length labels = 1 \<and> exist_label = new_label then Inr (False, False)
         else Inr (clash, False)))"

text \<open>The loop over \<^verbatim>\<open>list(self._peak_labels)\<close>, left at the first \<^verbatim>\<open>break\<close>.\<close>

fun clash_loop ::
  "'r toolkit \<Rightarrow> (nat \<times> label) list \<Rightarrow> nat \<Rightarrow> real \<Rightarrow> nat list \<Rightarrow> bool \<Rightarrow> error + bool" where
  "clash_loop tk labels new_label limit_distance [] clash = Inr clash"
| "clash_loop tk labels new_label limit_distance (exist_label # rest) clash =
     (case clash_round tk labels new_label limit_distance exist_label clash of
        Inl e \<Rightarrow> Inl e
      | Inr (clash', stop) \<Rightarrow>
          if stop then Inr clash'
          else clash_loop tk labels new_label limit_distance rest clash')"

definition label_clashes :: "'r toolkit \<Rightarrow> tic \<Rightarrow> nat \<Rightarrow> error + bool" where
  "label_clashes tk w label_id =
     (let limit_distance = 20 * pixel_width tk
      in if peak_labels w = [] then Inr False
         else clash_loop tk (peak_labels w) label_id limit_distance
                (map fst (peak_labels w)) False)"

text \<open>\<^verbatim>\<open>_add_label\<close> (lines 196-226). The text of the label is the formatted number;
  the model keeps the number.\<close>

definition add_label :: "'r toolkit \<Rightarrow> nat \<Rightarrow> real \<Rightarrow> real \<Rightarrow> real \<Rightarrow> tic \<Rightarrow> error + tic" where
  "add_label tk label_id text pos_x pos_y w =
     (let l = \<lparr>label_text = text, label_x = pos_x, label_y = pos_y\<rparr>;
          w1 = w\<lparr>peak_labels := AList.update label_id l (peak_labels w),
                 calls := calls w @ [AddItem l]\<rparr>
      in case label_clashes tk w1 label_id of
           Inl e \<Rightarrow> Inl e
         | Inr clash \<Rightarrow> if clash then remove_label label_id w1 else Inr w1)"

text \<open>\<^verbatim>\<open>_draw_peak_label\<close> (lines 310-324).\<close>

fun draw_loop :: "'r toolkit \<Rightarrow> nat list \<Rightarrow> tic \<Rightarrow> error + tic" where
  "draw_loop tk [] w = Inr w"
| "draw_loop tk (index # rest) w =
     (if index < length (ints w) then
        (if ints w ! index \<in> set (currentIntensitiesInRange w) then
           (if index < length (rts w) then
              (case add_label tk index (rts w ! index) (rts w ! index) (ints w ! index) w of
                 Inl e \<Rightarrow> Inl e
               | Inr w' \<Rightarrow> draw_loop tk rest w')
            else Inl IndexError)
         else draw_loop tk rest w)
      else Inl IndexError)"

definition draw_peak_label :: "'r toolkit \<Rightarrow> tic \<Rightarrow> error + tic" where
  "draw_peak_label tk w =
     (if peak_labels w = [] then draw_loop tk (peak_indices w) w else Inr w)"

definition redrawLabels :: "'r toolkit \<Rightarrow> tic \<Rightarrow> error + tic" where
  "redrawLabels tk w = draw_peak_label tk (clear_labels w)"

text \<open>\<^verbatim>\<open>TICWidget._autoscaleYAxis\<close> (lines 117-130).\<close>

definition autoscaleYAxis :: "'r toolkit \<Rightarrow> tic \<Rightarrow> error + tic" where
  "autoscaleYAxis tk w =
     (case x_range_of (axis_range tk) (rts w) of Inl e \<Rightarrow> Inl e
      | Inr x_range \<Rightarrow>
          (case getMaxIntensityInRange w x_range of
             (w1, m) \<Rightarrow>
               (let w2 = w1\<lparr>currMaxY := Some m\<rparr>
                in if m \<noteq> 0
                   then redrawLabels tk (w2\<lparr>calls := calls w2 @ [SetYRange 0 m]\<rparr>)
                   else Inr w2)))"

text \<open>\<^verbatim>\<open>redrawPlot\<close> (lines 112-115) with \<^verbatim>\<open>_plot_tic\<close> (lines 154-156).\<close>

definition plot_tic :: "tic \<Rightarrow> tic" where
  "plot_tic w = w\<lparr>calls := calls w @ [AddPlotData (rts w) (ints w)]\<rparr>"

definition redrawPlot :: "'r toolkit \<Rightarrow> tic \<Rightarrow> error + tic" where
  "redrawPlot tk w = draw_peak_label tk (plot_tic (w\<lparr>calls := calls w @ [PlotClear]\<rparr>))"

text \<open>
  \<^verbatim>\<open>setTIC\<close> (lines 76-98). The chromatogram is what \<^verbatim>\<open>get_peaks()\<close> returns: the
  retention times and the intensities.
\<close>

definition setTIC :: "'r toolkit \<Rightarrow> real list \<times> real list \<Rightarrow> tic \<Rightarrow> error + tic" where
  "setTIC tk chromatogram w =
     (let w1 = (if peak_labels w \<noteq> [] then (clear_labels w)\<lparr>peak_labels := []\<rparr> else w);
          w2 = w1\<lparr>rts := fst chromatogram, ints := snd chromatogram\<rparr>;
          w3 = checkExistTIC w2
      in if existTIC w3 then
           (case relative_ints (rts_in_min w3) of
              Inl e \<Rightarrow> Inl e
            | Inr w4 \<Rightarrow>
                (case autoscaleYAxis tk (w4\<lparr>peak_indices := find_Peak (ints w4)\<rparr>) of
                   Inl e \<Rightarrow> Inl e
                 | Inr w5 \<Rightarrow> redrawPlot tk w5))
         else Inr w3)"

text \<open>A run of updates, stopping at the first exception.\<close>

fun setTICs :: "'r toolkit \<Rightarrow> (real list \<times> real list) list \<Rightarrow> tic \<Rightarrow> error + tic" where
  "setTICs tk [] w = Inr w"
| "setTICs tk (c # cs) w =
     (case setTIC tk c w of Inl e \<Rightarrow> Inl e | Inr w' \<Rightarrow> setTICs tk cs w')"

text \<open>
  \<^verbatim>\<open>_calculate_closest_datapoint\<close> (lines 391-419). The test
  \<^verbatim>\<open>abs(self._rts[larger_idx] - point_x) < abs(self._rts[smaller_idx] - point_x)\<close> is
  computed in floating point, where a difference is rounded (for a click at 1e17 the
  samples 2 and 3 get the same distance). What it yields for the two samples and the
  click is the parameter \<open>dist_less\<close>, of which nothing is assumed.
\<close>

definition calculate_closest_datapoint ::
  "(real \<Rightarrow> real \<Rightarrow> real \<Rightarrow> bool) \<Rightarrow> tic \<Rightarrow> real \<Rightarrow> error + int" where
  "calculate_closest_datapoint dist_less w point_x =
     (let larger_idx = int (searchsorted_left (rts w) point_x);
          smaller_idx = 0;
          larger_idx = (if larger_idx \<ge> int (length (rts w)) then larger_idx - 1 else larger_idx);
          smaller_idx = (if larger_idx > 0 then larger_idx - 1 else smaller_idx)
      in case np_get (rts w) larger_idx of
           Inl e \<Rightarrow> Inl e
         | Inr a \<Rightarrow>
            (case np_get (rts w) smaller_idx of
               Inl e \<Rightarrow> Inl e
             | Inr b \<Rightarrow>
                 if dist_less a b point_x then Inr larger_idx else Inr smaller_idx))"

text \<open>The test where both differences are exact, as they are for small integers.\<close>

definition exact_dist_less :: "real \<Rightarrow> real \<Rightarrow> real \<Rightarrow> bool" where
  "exact_dist_less a b point_x = (\<bar>a - point_x\<bar> < \<bar>b - point_x\<bar>)"

section \<open>The specification's wording, for comparison\<close>

text \<open>
  The range reducer as the specification words it: the maximum absolute y-value among
  the samples whose x falls in the half-open interval from \<open>lo\<close> to \<open>hi\<close>, and 1 if
  there is no such sample.
\<close>

definition spec_range_max :: "real list \<Rightarrow> real list \<Rightarrow> real \<times> real \<Rightarrow> real" where
  "spec_range_max xs ys window =
     (case map (\<lambda>(x, y). \<bar>y\<bar>) (filter (\<lambda>(x, y). fst window \<le> x \<and> x < snd window) (zip xs ys)) of
        [] \<Rightarrow> 1
      | v # vs \<Rightarrow> fold max vs v)"


text \<open>
  The collision test of the specification for two labels: the rectangles intersect, or
  else the anchors are closer than 20 pixels in view coordinates.
\<close>

definition spec_collision :: "'r toolkit \<Rightarrow> label \<Rightarrow> label \<Rightarrow> bool" where
  "spec_collision tk a b =
     (if intersects tk (device_rect tk a) (device_rect tk b) then True
      else \<bar>label_x a - label_x b\<bar> < 20 * pixel_width tk)"

text \<open>
  A new label with key \<open>label_id\<close> collides with the labels of a dictionary if it
  collides, in this sense, with the label of some other key.
\<close>

definition spec_collides :: "'r toolkit \<Rightarrow> nat \<Rightarrow> label \<Rightarrow> (nat \<times> label) list \<Rightarrow> bool" where
  "spec_collides tk label_id l labels =
     (\<exists>k\<in>set (map fst labels). k \<noteq> label_id \<and>
        (case map_of labels k of None \<Rightarrow> False | Some e \<Rightarrow> spec_collision tk l e))"

text \<open>
  A toolkit to run the widget on: labels one unit wide around their anchor, rectangles
  as horizontal intervals, a hundred pixels per unit.
\<close>

definition example_toolkit :: "real \<times> real \<Rightarrow> (real \<times> real) toolkit" where
  "example_toolkit r =
     \<lparr>axis_range = r, pixel_width = 1 / 100,
      device_rect = (\<lambda>l. (label_x l - 1 / 2, label_x l + 1 / 2)),
      intersects = (\<lambda>a b. fst a < snd b \<and> fst b < snd a)\<rparr>"

section \<open>Properties of the peak finder\<close>

lemma inner_scan_no_descent:
  "\<forall>x\<in>set ds. pv \<le> x \<Longrightarrow> inner_scan pv ds j \<noteq> Descent m"
  by (induction ds arbitrary: j) auto

lemma outer_loop_no_marks:
  assumes "\<And>i. i \<in> set idxs \<Longrightarrow> \<forall>x\<in>set (drop i data). data ! i \<le> x"
  shows "outer_loop data idxs pv marks = marks"
  using assms
proof (induction idxs arbitrary: pv)
  case Nil
  then show ?case by simp
next
  case (Cons i idxs)
  have "\<forall>x\<in>set (drop i data). data ! i \<le> x" using Cons.prems by simp
  then have nd: "\<And>m. inner_scan (data ! i) (drop i data) i \<noteq> Descent m"
    by (rule inner_scan_no_descent)
  have ih: "\<And>pv. outer_loop data idxs pv marks = marks"
    using Cons.IH Cons.prems by simp
  show ?case
  proof (cases "inner_scan (data ! i) (drop i data) i")
    case (Descent m)
    with nd show ?thesis by blast
  qed (simp_all add: ih)
qed

lemma np_where_replicate_False: "np_where (replicate n False) = []"
  by (simp add: np_where_def filter_empty_conv)

lemma sorted_drop_ge:
  assumes "sorted data" "i < length data"
  shows "\<forall>x\<in>set (drop i data). data ! i \<le> x"
proof
  fix x assume "x \<in> set (drop i data)"
  then obtain k where "k < length data - i" "x = data ! (i + k)"
    by (auto simp: in_set_conv_nth)
  then show "data ! i \<le> x" using assms by (simp add: sorted_nth_mono)
qed

lemma marked_sorted: "sorted data \<Longrightarrow> marked data = replicate (length data) False"
  unfolding marked_def
  by (rule outer_loop_no_marks) (simp add: sorted_drop_ge)

lemma find_Peak_sorted: "sorted data \<Longrightarrow> find_Peak data = []"
  by (simp add: find_Peak_def marked_sorted np_where_replicate_False)

lemma outer_loop_descending:
  assumes "sorted_wrt (\<lambda>a b. b \<le> a) data" "n \<le> length data"
  shows "k < n \<Longrightarrow> data ! k \<le> v \<Longrightarrow> outer_loop data [k..<n] (Val v) marks = marks"
proof (induction "n - k" arbitrary: k v)
  case 0
  then show ?case by simp
next
  case (Suc m)
  have step: "[k..<n] = k # [Suc k..<n]" using Suc.prems by (simp add: upt_conv_Cons)
  have nl: "\<not> v < data ! k" using Suc.prems by simp
  show ?case
  proof (cases "Suc k < n")
    case True
    have "data ! Suc k \<le> data ! k"
      using assms True by (simp add: sorted_wrt_iff_nth_less)
    moreover have "m = n - Suc k" using Suc.hyps by simp
    ultimately have "outer_loop data [Suc k..<n] (Val (data ! k)) marks = marks"
      using Suc.hyps(1) True by blast
    then show ?thesis using nl step by simp
  next
    case False
    then have e: "[Suc k..<n] = []" by simp
    show ?thesis by (simp add: step e nl)
  qed
qed

lemma marked_descending:
  assumes d: "sorted_wrt (\<lambda>a b. b < a) data" and l: "2 \<le> length data"
  shows "marked data = (replicate (length data) False)[0 := True]"
proof -
  obtain d0 d1 ds where data: "data = d0 # d1 # ds"
    using l by (cases data; cases "tl data") auto
  have lt: "d1 < d0" using d data by simp
  have d': "sorted_wrt (\<lambda>a b. b \<le> a) data"
    using d by (rule sorted_wrt_mono_rel [rotated]) simp
  have up: "[0..<length data] = 0 # [1..<length data]"
    using l by (subst upt_conv_Cons) auto
  have scan: "inner_scan (data ! 0) (drop 0 data) 0 = Descent 1"
    using lt data by simp
  have rest: "outer_loop data [1..<length data] (Val (data ! 1)) marks = marks" for marks
    using outer_loop_descending [OF d' order_refl, of 1 "data ! 1" marks] l by simp
  show ?thesis
    unfolding marked_def up using scan rest by simp
qed

lemma np_where_single:
  "0 < n \<Longrightarrow> np_where ((replicate n False)[0 := True]) = [0]"
proof -
  assume n: "0 < n"
  have "filter (\<lambda>i. (replicate n False)[0 := True] ! i) [0..<n] = filter (\<lambda>i. i = 0) [0..<n]"
    by (rule filter_cong) (auto simp: nth_list_update)
  also have "\<dots> = [0]" using n by (simp add: upt_conv_Cons filter_empty_conv)
  finally show ?thesis by (simp add: np_where_def)
qed

lemma find_Peak_descending:
  assumes "sorted_wrt (\<lambda>a b. b < a) data" "2 \<le> length data"
  shows "find_Peak data = [0]"
proof -
  have "0 < length data" using assms(2) by linarith
  then show ?thesis
    using assms by (simp add: find_Peak_def marked_descending np_where_single)
qed

lemma insort_key_lex:
  fixes f :: "nat \<Rightarrow> real"
  assumes "sorted_wrt (\<lambda>i j. f i < f j \<or> (f i = f j \<and> i < j)) ys" "\<forall>y\<in>set ys. x < y"
  shows "sorted_wrt (\<lambda>i j. f i < f j \<or> (f i = f j \<and> i < j)) (insort_key f x ys)"
  using assms
proof (induction ys)
  case Nil
  then show ?case by simp
next
  case (Cons y ys)
  show ?case
  proof (cases "f x \<le> f y")
    case True
    have "f x < f z \<or> (f x = f z \<and> x < z)" if "z \<in> set (y # ys)" for z
    proof -
      have "f y \<le> f z" using Cons.prems(1) that by auto
      then have "f x \<le> f z" using True by simp
      moreover have "x < z" using Cons.prems(2) that by auto
      ultimately show ?thesis by auto
    qed
    then show ?thesis using True Cons.prems(1) by simp
  next
    case False
    then have "f y < f x" by simp
    then show ?thesis using False Cons by (auto simp: set_insort_key)
  qed
qed

lemma sort_key_lex:
  fixes f :: "nat \<Rightarrow> real"
  assumes "sorted_wrt (<) xs"
  shows "sorted_wrt (\<lambda>i j. f i < f j \<or> (f i = f j \<and> i < j)) (sort_key f xs)"
  using assms
proof (induction xs)
  case Nil
  then show ?case by simp
next
  case (Cons x xs)
  then show ?case by (simp add: insort_key_lex)
qed

lemma np_where_ascending: "sorted_wrt (<) (np_where m)"
  unfolding np_where_def by (rule sorted_wrt_filter) simp

text \<open>
  Claim C1, as the code has it. The peak finder returns no peak for the empty sequence
  and no peak for a strictly increasing sequence: an index is marked only when a smaller
  value follows, and none follows the last element. For a strictly decreasing sequence
  of at least two elements it returns exactly one peak, the first index. (A sequence of
  one element is strictly increasing, and has no peak.)
\<close>

theorem find_Peak_monotonic:
  "find_Peak [] = [] \<and>
   (sorted_wrt (<) inc \<longrightarrow> find_Peak inc = []) \<and>
   (sorted_wrt (>) dec \<and> 2 \<le> length dec \<longrightarrow> find_Peak dec = [0])"
proof -
  have "sorted inc" if "sorted_wrt (<) inc"
    using that by (rule sorted_wrt_mono_rel [rotated]) simp
  then show ?thesis
    using find_Peak_sorted [of inc] find_Peak_sorted [of "[]"] find_Peak_descending [of dec]
    by auto
qed

theorem find_Peak_monotonic_witness:
  "find_Peak [] = [] \<and>
   sorted_wrt (<) [1, 2, 3 :: real] \<and> find_Peak [1, 2, 3] = [] \<and>
   sorted_wrt (>) [3, 2, 1 :: real] \<and> 2 \<le> length [3, 2, 1 :: real] \<and>
   find_Peak [3, 2, 1] = [0]"
  using find_Peak_monotonic [of "[1, 2, 3]" "[3, 2, 1]"] by simp

text \<open>
  Claim C1 as stated fails: the strictly increasing sequence 1, 2, 3 has no peak, where
  the claim promises the final index 2 as the sole peak.
\<close>

theorem find_Peak_increasing_counterexample:
  "sorted_wrt (<) [1, 2, 3 :: real] \<and> find_Peak [1, 2, 3] \<noteq> [2]"
  by code_simp

text \<open>
  Claim C5. On the sequence 1, 5, 3, 5, 1 the peak finder returns the indices 1 and 3 of
  the two values 5, in this order. For every input the result is ordered by descending
  intensity, and indices of equal intensity appear in ascending index order.
\<close>

theorem find_Peak_two_peaks:
  "find_Peak [1, 5, 3, 5, 1] = [1, 3] \<and>
   sorted_wrt (\<lambda>i j. data ! j < data ! i \<or> (data ! i = data ! j \<and> i < j)) (find_Peak data)"
proof -
  have "find_Peak [1, 5, 3, 5, 1] = [1, 3]" by code_simp
  moreover have
    "sorted_wrt (\<lambda>i j. data ! j < data ! i \<or> (data ! i = data ! j \<and> i < j)) (find_Peak data)"
    using sort_key_lex [OF np_where_ascending, of "\<lambda>x. - (data ! x)" "marked data"]
    by (simp add: find_Peak_def)
  ultimately show ?thesis by simp
qed

text \<open>
  Claim C6 at the input 5, 5, 5, 1. The plateau of three values 5 is one peak region, and
  the peak finder marks two of its indices, 1 and 2: the round for index 0 marks
  0 + 3 div 2 = 1, and since the loop goes on with index 1 (not with the index 3 where
  the descent was confirmed), the round for index 1 marks 1 + 2 div 2 = 2.
\<close>

theorem find_Peak_plateau:
  "marked [5, 5, 5, 1] = [False, True, True, False] \<and> find_Peak [5, 5, 5, 1] = [1, 2]"
  by code_simp

text \<open>
  Claim C10. For a non-empty constant sequence no index is marked, and the peak finder
  returns the empty list.
\<close>

theorem find_Peak_constant:
  "marked (replicate (Suc n) c) = replicate (Suc n) False \<and>
   find_Peak (replicate (Suc n) c) = []"
proof -
  have "sorted (replicate (Suc n) c)" by (simp add: sorted_replicate)
  then show ?thesis
    using marked_sorted [of "replicate (Suc n) c"] find_Peak_sorted [of "replicate (Suc n) c"]
    by simp
qed

section \<open>Properties of the range reducer\<close>

lemma takeWhile_sorted_nth:
  fixes xs :: "real list"
  assumes "\<And>x y. x \<le> y \<Longrightarrow> P y \<Longrightarrow> P x" "sorted xs" "i < length xs"
  shows "(i < length (takeWhile P xs)) = P (xs ! i)"
  using assms(2,3)
proof (induction xs arbitrary: i)
  case Nil
  then show ?case by simp
next
  case (Cons x xs)
  show ?case
  proof (cases "P x")
    case True
    then show ?thesis using Cons by (cases i) auto
  next
    case False
    have "x \<le> (x # xs) ! i" using Cons.prems by (cases i) auto
    then have "\<not> P ((x # xs) ! i)" using assms(1) False by blast
    then show ?thesis using False by simp
  qed
qed

lemma searchsorted_left_nth:
  "sorted a \<Longrightarrow> i < length a \<Longrightarrow> (i < searchsorted_left a v) = (a ! i < v)"
  unfolding searchsorted_left_def by (rule takeWhile_sorted_nth) auto

lemma searchsorted_right_nth:
  "sorted a \<Longrightarrow> i < length a \<Longrightarrow> (i < searchsorted_right a v) = (a ! i \<le> v)"
  unfolding searchsorted_right_def by (rule takeWhile_sorted_nth) auto

lemma searchsorted_left_le: "searchsorted_left a v \<le> length a"
  by (simp add: searchsorted_left_def length_takeWhile_le)

lemma searchsorted_right_le: "searchsorted_right a v \<le> length a"
  by (simp add: searchsorted_right_def length_takeWhile_le)

lemma slice_nth:
  assumes "i < min r (length a) - l"
  shows "slice a l r ! i = a ! (l + i)"
proof -
  have "l \<le> length (take r a)" using assms by (auto simp: min_def split: if_splits)
  then have "drop l (take r a) ! i = take r a ! (l + i)" by simp
  also have "\<dots> = a ! (l + i)" using assms by simp
  finally show ?thesis by (simp add: slice_def)
qed

lemma set_slice: "set (slice a l r) = {a ! i | i. l \<le> i \<and> i < r \<and> i < length a}"
proof -
  have len: "length (slice a l r) = min r (length a) - l"
    by (simp add: slice_def min.commute)
  have "slice a l r = map ((!) a) [l..<min r (length a)]"
  proof (rule nth_equalityI)
    show "length (slice a l r) = length (map ((!) a) [l..<min r (length a)])"
      by (simp add: len)
  next
    fix i assume "i < length (slice a l r)"
    then have i: "i < min r (length a) - l" by (simp add: len)
    then have "l + i < min r (length a)" by linarith
    then have "[l..<min r (length a)] ! i = l + i" by (rule nth_upt)
    then show "slice a l r ! i = map ((!) a) [l..<min r (length a)] ! i"
      using i by (simp add: slice_nth)
  qed
  then show ?thesis by auto
qed

lemma amax_initial_Max: "amax_initial a i = Max (insert i (set a))"
  using Max.set_eq_fold [of i a] by (simp add: amax_initial_def)

lemma slice_window:
  assumes "sorted xs" "length ys = length xs"
  shows "set (slice ys (searchsorted_left xs lo) (searchsorted_right xs hi)) =
         {ys ! i | i. i < length xs \<and> lo \<le> xs ! i \<and> xs ! i \<le> hi}"
proof -
  have "(searchsorted_left xs lo \<le> i \<and> i < searchsorted_right xs hi \<and> i < length ys) =
        (i < length xs \<and> lo \<le> xs ! i \<and> xs ! i \<le> hi)" for i
    using searchsorted_left_nth [OF assms(1), of i lo] searchsorted_right_nth [OF assms(1), of i hi]
      assms(2)
    by (cases "i < length xs") auto
  then show ?thesis by (simp add: set_slice)
qed

lemma getMaxMassErrorInRange_closed:
  assumes "sorted xs" "length ys = length xs"
  shows "getMaxMassErrorInRange xs ys (lo, hi) =
         Max (insert 1 {\<bar>ys ! i\<bar> | i. i < length xs \<and> lo \<le> xs ! i \<and> xs ! i \<le> hi})"
proof -
  have "set (map abs (slice ys (searchsorted_left xs lo) (searchsorted_right xs hi))) =
        {\<bar>ys ! i\<bar> | i. i < length xs \<and> lo \<le> xs ! i \<and> xs ! i \<le> hi}"
    using slice_window [OF assms, of lo hi] by auto
  then show ?thesis
    by (simp add: getMaxMassErrorInRange_def amax_initial_Max)
qed

lemma getMaxIntensityInRange_closed:
  assumes "sorted (rts w)" "length (ints w) = length (rts w)"
  shows "snd (getMaxIntensityInRange w (lo, hi)) =
         Max (insert 1 {ints w ! i | i. i < length (rts w) \<and> lo \<le> rts w ! i \<and> rts w ! i \<le> hi})"
  using slice_window [OF assms, of lo hi]
  by (simp add: getMaxIntensityInRange_def amax_initial_Max Let_def)

text \<open>
  Claim C2, as the code has it. For an ascending x-sequence the range reducer returns the
  larger of 1 and the maximum absolute y-value (for the intensity plot: the maximum
  y-value) among exactly the samples whose x lies in the closed interval from \<open>lo\<close> to
  \<open>hi\<close>: \<^verbatim>\<open>side="right"\<close> keeps the samples at \<open>hi\<close>, and \<^verbatim>\<open>initial=1\<close> takes part
  in the maximum whether the slice is empty or not. On the example it returns 7.
\<close>

theorem range_reducer_closed_window:
  "(sorted xs \<and> length ys = length xs \<longrightarrow>
      getMaxMassErrorInRange xs ys (lo, hi) =
      Max (insert 1 {\<bar>ys ! i\<bar> | i. i < length xs \<and> lo \<le> xs ! i \<and> xs ! i \<le> hi})) \<and>
   (sorted (rts w) \<and> length (ints w) = length (rts w) \<longrightarrow>
      snd (getMaxIntensityInRange w (lo, hi)) =
      Max (insert 1 {ints w ! i | i. i < length (rts w) \<and> lo \<le> rts w ! i \<and> rts w ! i \<le> hi})) \<and>
   getMaxMassErrorInRange [0, 1, 2, 3, 4] [2, - 7, 3, - 1, 5] (1, 3) = 7"
proof -
  have "getMaxMassErrorInRange [0, 1, 2, 3, 4] [2, - 7, 3, - 1, 5] (1, 3) = 7"
    by code_simp
  then show ?thesis
    using getMaxMassErrorInRange_closed [of xs ys lo hi] getMaxIntensityInRange_closed [of w lo hi]
    by blast
qed

theorem range_reducer_closed_window_witness:
  "sorted [0, 1, 2, 3, 4 :: real] \<and>
   length [2, - 7, 3, - 10, 5 :: real] = length [0, 1, 2, 3, 4 :: real] \<and>
   getMaxMassErrorInRange [0, 1, 2, 3, 4] [2, - 7, 3, - 10, 5] (1, 3) =
     Max (insert 1 {\<bar>[2, - 7, 3, - 10, 5 :: real] ! i\<bar> | i.
            i < length [0, 1, 2, 3, 4 :: real] \<and> 1 \<le> [0, 1, 2, 3, 4 :: real] ! i \<and>
            [0, 1, 2, 3, 4 :: real] ! i \<le> 3}) \<and>
   getMaxMassErrorInRange [0, 1, 2, 3, 4] [2, - 7, 3, - 10, 5] (1, 3) = 10 \<and>
   sorted (rts (init_tic\<lparr>rts := [0, 1, 2], ints := [5, 6, 7]\<rparr>)) \<and>
   length (ints (init_tic\<lparr>rts := [0, 1, 2], ints := [5, 6, 7]\<rparr>)) =
     length (rts (init_tic\<lparr>rts := [0, 1, 2], ints := [5, 6, 7]\<rparr>)) \<and>
   snd (getMaxIntensityInRange (init_tic\<lparr>rts := [0, 1, 2], ints := [5, 6, 7]\<rparr>) (1, 3)) = 7"
proof -
  have h: "sorted [0, 1, 2, 3, 4 :: real] \<and>
      length [2, - 7, 3, - 10, 5 :: real] = length [0, 1, 2, 3, 4 :: real]"
    by simp
  have g: "sorted (rts (init_tic\<lparr>rts := [0, 1, 2], ints := [5, 6, 7]\<rparr>)) \<and>
      length (ints (init_tic\<lparr>rts := [0, 1, 2], ints := [5, 6, 7]\<rparr>)) =
      length (rts (init_tic\<lparr>rts := [0, 1, 2], ints := [5, 6, 7]\<rparr>))"
    by simp
  have v: "getMaxMassErrorInRange [0, 1, 2, 3, 4] [2, - 7, 3, - 10, 5] (1, 3) = 10"
    by code_simp
  have u: "snd (getMaxIntensityInRange (init_tic\<lparr>rts := [0, 1, 2], ints := [5, 6, 7]\<rparr>) (1, 3)) = 7"
    by code_simp
  show ?thesis
    using h g v u
      range_reducer_closed_window [of "[0, 1, 2, 3, 4]" "[2, - 7, 3, - 10, 5]" 1 3
        "init_tic\<lparr>rts := [0, 1, 2], ints := [5, 6, 7]\<rparr>"]
    by blast
qed

text \<open>
  Claim C2 as stated fails twice. With the window from 1 to 3 the sample at x = 3 is part
  of the slice, so its error of 10 is returned where the half-open interval gives 7. And
  for errors of one half the result is 1, though the slice is not empty and its maximum
  is one half.
\<close>

theorem range_reducer_half_open_counterexample:
  "sorted [0, 1, 2, 3, 4 :: real] \<and>
   getMaxMassErrorInRange [0, 1, 2, 3, 4] [2, - 7, 3, - 10, 5] (1, 3) = 10 \<and>
   spec_range_max [0, 1, 2, 3, 4] [2, - 7, 3, - 10, 5] (1, 3) = 7 \<and>
   getMaxMassErrorInRange [0, 1, 2] [1 / 2, 1 / 2, 1 / 2] (0, 3) = 1 \<and>
   spec_range_max [0, 1, 2] [1 / 2, 1 / 2, 1 / 2] (0, 3) = 1 / 2"
  by code_simp

section \<open>The data extent, and the fields the label methods keep\<close>









section \<open>Properties of the labels\<close>

lemma clash_round_other:
  assumes "map_of L new = Some nl" "map_of L e = Some el" "e \<noteq> new"
  shows "clash_round tk L new (20 * pixel_width tk) e c =
         Inr (spec_collision tk nl el, spec_collision tk nl el)"
  using assms by (simp add: clash_round_def spec_collision_def Let_def)

lemma clash_round_self:
  "clash_round tk L new d new c = Inr (if length L = 1 then False else c, False)"
  by (simp add: clash_round_def)

lemma clash_loop_result:
  assumes "map_of L new = Some nl" "set ks \<subseteq> fst ` set L"
  shows "clash_loop tk L new (20 * pixel_width tk) ks False =
         Inr (\<exists>k\<in>set ks. k \<noteq> new \<and>
                (case map_of L k of None \<Rightarrow> False | Some e \<Rightarrow> spec_collision tk nl e))"
  using assms(2)
proof (induction ks)
  case Nil
  then show ?case by simp
next
  case (Cons k ks)
  have ih: "clash_loop tk L new (20 * pixel_width tk) ks False =
         Inr (\<exists>k\<in>set ks. k \<noteq> new \<and>
                (case map_of L k of None \<Rightarrow> False | Some e \<Rightarrow> spec_collision tk nl e))"
    using Cons by simp
  show ?case
  proof (cases "k = new")
    case True
    then show ?thesis using ih by (simp add: clash_round_self)
  next
    case False
    have "k \<in> fst ` set L" using Cons.prems by simp
    then obtain el where el: "map_of L k = Some el"
      by (metis domD dom_map_of_conv_image_fst)
    show ?thesis
      using False el ih clash_round_other [OF assms(1) el False, of tk False]
      by (cases "spec_collision tk nl el") simp_all
  qed
qed

lemma label_clashes_result:
  assumes "map_of (peak_labels w) label_id = Some l"
  shows "label_clashes tk w label_id = Inr (spec_collides tk label_id l (peak_labels w))"
proof -
  have ne: "peak_labels w \<noteq> []" using assms by auto
  show ?thesis
    using clash_loop_result [OF assms, of "map fst (peak_labels w)" tk] ne
    by (simp add: label_clashes_def spec_collides_def)
qed

lemma spec_collides_update:
  "spec_collides tk label_id l (AList.update label_id l' labels) =
   spec_collides tk label_id l labels"
proof -
  have pw: "(k \<in> set (map fst (AList.update label_id l' labels)) \<and> k \<noteq> label_id \<and>
          (case map_of (AList.update label_id l' labels) k of None \<Rightarrow> False
           | Some e \<Rightarrow> spec_collision tk l e)) =
        (k \<in> set (map fst labels) \<and> k \<noteq> label_id \<and>
          (case map_of labels k of None \<Rightarrow> False | Some e \<Rightarrow> spec_collision tk l e))" for k
  proof (cases "k = label_id")
    case True
    then show ?thesis by simp
  next
    case False
    have "map_of (AList.update label_id l' labels) k = map_of labels k"
      using False by (simp add: update_conv')
    moreover have "(k \<in> set (map fst (AList.update label_id l' labels))) =
        (k \<in> set (map fst labels))"
      using False by (simp add: update_keys)
    ultimately show ?thesis by simp
  qed
  show ?thesis unfolding spec_collides_def Bex_def by (simp only: pw)
qed

text \<open>
  Claim C3. \<^verbatim>\<open>_add_label\<close> never raises. The clash test on the dictionary that holds
  the new label is true exactly if, for the label of some other key, the device
  rectangles intersect or else the anchors are less than 20 pixel widths apart. If it is
  true the new label is deleted again in the same call, so its key is then absent from
  the dictionary; otherwise the key holds the new label. The other keys are untouched.
\<close>

theorem add_label_collision:
  fixes tk :: "'r toolkit"
  shows "\<exists>w'. add_label tk label_id text pos_x pos_y w = Inr w' \<and>
     label_clashes tk
       (w\<lparr>peak_labels := AList.update label_id
             \<lparr>label_text = text, label_x = pos_x, label_y = pos_y\<rparr> (peak_labels w),
           calls := calls w @ [AddItem \<lparr>label_text = text, label_x = pos_x, label_y = pos_y\<rparr>]\<rparr>)
       label_id =
       Inr (spec_collides tk label_id \<lparr>label_text = text, label_x = pos_x, label_y = pos_y\<rparr>
             (peak_labels w)) \<and>
     map_of (peak_labels w') label_id =
       (if spec_collides tk label_id \<lparr>label_text = text, label_x = pos_x, label_y = pos_y\<rparr>
             (peak_labels w)
        then None else Some \<lparr>label_text = text, label_x = pos_x, label_y = pos_y\<rparr>) \<and>
     (\<forall>k. k \<noteq> label_id \<longrightarrow> map_of (peak_labels w') k = map_of (peak_labels w) k)"
proof -
  define l where "l = \<lparr>label_text = text, label_x = pos_x, label_y = pos_y\<rparr>"
  define w1 where "w1 = w\<lparr>peak_labels := AList.update label_id l (peak_labels w),
                          calls := calls w @ [AddItem l]\<rparr>"
  have m: "map_of (peak_labels w1) label_id = Some l"
    by (simp add: w1_def update_conv')
  have c: "label_clashes tk w1 label_id = Inr (spec_collides tk label_id l (peak_labels w))"
    using label_clashes_result [OF m, of tk] by (simp add: w1_def spec_collides_update)
  have a: "add_label tk label_id text pos_x pos_y w =
        (if spec_collides tk label_id l (peak_labels w) then remove_label label_id w1
         else Inr w1)"
    using c by (simp add: add_label_def Let_def l_def [symmetric] w1_def [symmetric])
  show ?thesis
  proof (cases "spec_collides tk label_id l (peak_labels w)")
    case True
    have "remove_label label_id w1 =
        Inr (w1\<lparr>calls := calls w1 @ [RemoveItem l],
                peak_labels := AList.delete label_id (peak_labels w1)\<rparr>)"
      using m by (simp add: remove_label_def)
    then show ?thesis
      using True a c
      by (simp add: l_def [symmetric] w1_def [symmetric])
         (simp add: w1_def delete_conv' update_conv')
  next
    case False
    then show ?thesis
      using a c m
      by (simp add: l_def [symmetric] w1_def [symmetric])
         (simp add: w1_def update_conv')
  qed
qed

theorem add_label_collision_witness:
  "(3 :: nat) \<noteq> 1 \<and>
   spec_collides (example_toolkit (0, 10)) 1
     \<lparr>label_text = 41 / 10, label_x = 41 / 10, label_y = 50\<rparr>
     [(3, \<lparr>label_text = 4, label_x = 4, label_y = 100\<rparr>)] \<and>
   (\<exists>w'. add_label (example_toolkit (0, 10)) 1 (41 / 10) (41 / 10) 50
            (init_tic\<lparr>peak_labels := [(3, \<lparr>label_text = 4, label_x = 4, label_y = 100\<rparr>)]\<rparr>) =
          Inr w' \<and>
        map_of (peak_labels w') 1 = None \<and>
        map_of (peak_labels w') 3 = Some \<lparr>label_text = 4, label_x = 4, label_y = 100\<rparr>)"
proof -
  let ?w = "init_tic\<lparr>peak_labels := [(3, \<lparr>label_text = 4, label_x = 4, label_y = 100\<rparr>)]\<rparr>"
  have c: "spec_collides (example_toolkit (0, 10)) 1
     \<lparr>label_text = 41 / 10, label_x = 41 / 10, label_y = 50\<rparr>
     [(3, \<lparr>label_text = 4, label_x = 4, label_y = 100\<rparr>)]"
    by code_simp
  have p: "peak_labels ?w = [(3, \<lparr>label_text = 4, label_x = 4, label_y = 100\<rparr>)]" by simp
  obtain w' where a: "add_label (example_toolkit (0, 10)) 1 (41 / 10) (41 / 10) 50 ?w = Inr w'"
    and m: "map_of (peak_labels w') 1 =
       (if spec_collides (example_toolkit (0, 10)) 1
             \<lparr>label_text = 41 / 10, label_x = 41 / 10, label_y = 50\<rparr> (peak_labels ?w)
        then None else Some \<lparr>label_text = 41 / 10, label_x = 41 / 10, label_y = 50\<rparr>)"
    and o: "\<forall>k. k \<noteq> 1 \<longrightarrow> map_of (peak_labels w') k = map_of (peak_labels ?w) k"
    using add_label_collision [of "example_toolkit (0, 10)" 1 "41 / 10" "41 / 10" 50 ?w]
    by blast
  have m1: "map_of (peak_labels w') 1 = None" using m c unfolding p by simp
  have "map_of (peak_labels w') 3 = map_of (peak_labels ?w) 3" using o by simp
  then have m3: "map_of (peak_labels w') 3 = Some \<lparr>label_text = 4, label_x = 4, label_y = 100\<rparr>"
    unfolding p by simp
  show ?thesis using c a m1 m3 by simp
qed

text \<open>
  Claim C9. \<^verbatim>\<open>_clear_labels\<close> leaves the dictionary of labels empty whatever it held,
  and a second call right after it changes nothing: it makes no toolkit call and leaves
  the state as the first call left it.
\<close>

theorem clear_labels_idempotent:
  "peak_labels (clear_labels w) = [] \<and>
   peak_labels (clear_labels (clear_labels w)) = [] \<and>
   clear_labels (clear_labels w) = clear_labels w"
  by (simp add: clear_labels_def)

section \<open>The window of the autoscale\<close>
















section \<open>Properties of the search for the closest data point\<close>

lemma searchsorted_left_all:
  "\<forall>x\<in>set a. x < v \<Longrightarrow> searchsorted_left a v = length a"
proof -
  assume "\<forall>x\<in>set a. x < v"
  then have eq: "takeWhile (\<lambda>x. x < v) a = a" by (simp add: takeWhile_eq_all_conv)
  show ?thesis unfolding searchsorted_left_def eq by (rule refl)
qed

lemma np_get_in_range:
  "0 \<le> i \<Longrightarrow> i < int (length a) \<Longrightarrow> np_get a i = Inr (a ! nat i)"
  by (simp add: np_get_def)

text \<open>
  Claim C8, as the code has it. On a non-empty sample sequence the search returns, for
  every clicked x-coordinate and whatever the floating-point test yields, an index within
  the bounds of the sequence, and never raises. For a click beyond the last sample of an
  ascending sequence the insertion point is the length of the sequence; it is replaced by
  the last valid index, and the result is the last index if the test finds the last
  sample strictly closer than the one before it, else the index before the last. With
  one sample the result is index 0.
\<close>

theorem closest_datapoint_clamped:
  assumes "rts w \<noteq> []"
  shows "\<exists>i. calculate_closest_datapoint dist_less w x = Inr i \<and>
     0 \<le> i \<and> i < int (length (rts w)) \<and>
     (sorted (rts w) \<and> last (rts w) < x \<longrightarrow>
        searchsorted_left (rts w) x = length (rts w) \<and>
        (length (rts w) = 1 \<longrightarrow> i = 0) \<and>
        (2 \<le> length (rts w) \<longrightarrow>
           i = (if dist_less (rts w ! (length (rts w) - 1)) (rts w ! (length (rts w) - 2)) x
                then int (length (rts w)) - 1 else int (length (rts w)) - 2)))"
proof -
  define n where "n = length (rts w)"
  define k where "k = int (searchsorted_left (rts w) x)"
  define larger where "larger = (if k \<ge> int n then k - 1 else k)"
  define smaller where "smaller = (if larger > 0 then larger - 1 else 0)"
  define i where
    "i = (if dist_less (rts w ! nat larger) (rts w ! nat smaller) x then larger else smaller)"
  have n: "0 < n" using assms by (simp add: n_def)
  have kb: "0 \<le> k" "k \<le> int n"
    using searchsorted_left_le [of "rts w" x] by (simp_all add: k_def n_def)
  have l: "0 \<le> larger" "larger < int n" using n kb by (auto simp: larger_def)
  have s: "0 \<le> smaller" "smaller < int n" using l by (auto simp: smaller_def)
  have gl: "np_get (rts w) larger = Inr (rts w ! nat larger)"
    using l by (simp add: np_get_in_range n_def)
  have gs: "np_get (rts w) smaller = Inr (rts w ! nat smaller)"
    using s by (simp add: np_get_in_range n_def)
  have step: "calculate_closest_datapoint dist_less w x =
      (case np_get (rts w) larger of
         Inl e \<Rightarrow> Inl e
       | Inr a \<Rightarrow>
          (case np_get (rts w) smaller of
             Inl e \<Rightarrow> Inl e
           | Inr b \<Rightarrow> if dist_less a b x then Inr larger else Inr smaller))"
    unfolding calculate_closest_datapoint_def Let_def larger_def smaller_def k_def n_def
    by (rule refl)
  have c: "calculate_closest_datapoint dist_less w x = Inr i"
    unfolding step gl gs i_def by simp
  have b: "0 \<le> i \<and> i < int n" using l s by (simp add: i_def)
  have beyond: "searchsorted_left (rts w) x = n \<and> (n = 1 \<longrightarrow> i = 0) \<and>
        (2 \<le> n \<longrightarrow>
           i = (if dist_less (rts w ! (n - 1)) (rts w ! (n - 2)) x
                then int n - 1 else int n - 2))"
    if srt: "sorted (rts w)" and lt: "last (rts w) < x"
  proof -
    have lastn: "last (rts w) = rts w ! (n - 1)"
      using assms by (simp add: last_conv_nth n_def)
    have le: "y \<le> last (rts w)" if yin: "y \<in> set (rts w)" for y
    proof -
      obtain j where "j < n" "y = rts w ! j"
        using yin by (auto simp: in_set_conv_nth n_def)
      then show ?thesis
        using srt n by (simp add: lastn sorted_nth_mono n_def)
    qed
    then have "\<forall>y\<in>set (rts w). y < x" using lt by fastforce
    then have k: "searchsorted_left (rts w) x = n"
      by (simp add: searchsorted_left_all n_def)
    have la: "larger = int n - 1" using k by (simp add: larger_def k_def)
    have nl: "nat larger = n - 1" using la n by simp
    have one: "i = 0" if "n = 1"
    proof -
      have "larger = 0" "smaller = 0" using la that by (simp_all add: smaller_def)
      then show ?thesis by (simp add: i_def)
    qed
    have two: "i = (if dist_less (rts w ! (n - 1)) (rts w ! (n - 2)) x
                then int n - 1 else int n - 2)" if n2: "2 \<le> n"
    proof -
      have sm: "smaller = int n - 2" using la n2 by (simp add: smaller_def)
      have ns: "nat smaller = n - 2" using sm n2 by simp
      have "i = (if dist_less (rts w ! nat larger) (rts w ! nat smaller) x
                 then larger else smaller)"
        by (rule i_def)
      then show ?thesis unfolding nl ns unfolding la sm .
    qed
    show ?thesis using k one two by blast
  qed
  show ?thesis
    using c b beyond unfolding n_def by blast
qed

theorem closest_datapoint_clamped_witness:
  "rts (init_tic\<lparr>rts := [1, 2, 3]\<rparr>) \<noteq> [] \<and>
   sorted (rts (init_tic\<lparr>rts := [1, 2, 3]\<rparr>)) \<and>
   last (rts (init_tic\<lparr>rts := [1, 2, 3]\<rparr>)) < 5 \<and>
   2 \<le> length (rts (init_tic\<lparr>rts := [1, 2, 3]\<rparr>)) \<and>
   exact_dist_less 3 2 5 \<and>
   calculate_closest_datapoint exact_dist_less (init_tic\<lparr>rts := [1, 2, 3]\<rparr>) 5 = Inr 2"
proof -
  let ?w = "init_tic\<lparr>rts := [1, 2, 3]\<rparr>"
  have h: "rts ?w \<noteq> []" by simp
  have s: "sorted (rts ?w) \<and> last (rts ?w) < 5" "2 \<le> length (rts ?w)" by simp_all
  have d: "exact_dist_less 3 2 5" by (simp add: exact_dist_less_def)
  have r: "rts ?w = [1, 2, 3]" by simp
  obtain i where c: "calculate_closest_datapoint exact_dist_less ?w 5 = Inr i"
    and "sorted (rts ?w) \<and> last (rts ?w) < 5 \<longrightarrow>
        searchsorted_left (rts ?w) 5 = length (rts ?w) \<and>
        (length (rts ?w) = 1 \<longrightarrow> i = 0) \<and>
        (2 \<le> length (rts ?w) \<longrightarrow>
           i = (if exact_dist_less (rts ?w ! (length (rts ?w) - 1))
                     (rts ?w ! (length (rts ?w) - 2)) 5
                then int (length (rts ?w)) - 1 else int (length (rts ?w)) - 2))"
    using closest_datapoint_clamped [OF h, of exact_dist_less 5] by blast
  then have "i = (if exact_dist_less (rts ?w ! (length (rts ?w) - 1))
                     (rts ?w ! (length (rts ?w) - 2)) 5
                then int (length (rts ?w)) - 1 else int (length (rts ?w)) - 2)"
    using s by blast
  then have "i = 2" unfolding r using d by simp
  then show ?thesis using h s d c by simp
qed

text \<open>
  Claim C8 as stated fails where the last two samples have the same x-value: for the
  samples 1, 2, 2 and a click at 5 both distances are 3, the test is strict, and the
  search returns index 1, not the last valid index 2.
\<close>

theorem closest_datapoint_tie_counterexample:
  "rts (init_tic\<lparr>rts := [1, 2, 2]\<rparr>) \<noteq> [] \<and>
   sorted (rts (init_tic\<lparr>rts := [1, 2, 2]\<rparr>)) \<and>
   last (rts (init_tic\<lparr>rts := [1, 2, 2]\<rparr>)) < 5 \<and>
   calculate_closest_datapoint exact_dist_less (init_tic\<lparr>rts := [1, 2, 2]\<rparr>) 5 = Inr 1 \<and>
   calculate_closest_datapoint exact_dist_less (init_tic\<lparr>rts := [1, 2, 2]\<rparr>) 5 \<noteq>
     Inr (int (length (rts (init_tic\<lparr>rts := [1, 2, 2]\<rparr>))) - 1)"
  by code_simp

section \<open>Updates of the data set\<close>

text \<open>
  An update with an empty chromatogram sets \<^verbatim>\<open>_existTIC\<close> to False, and once it is
  False an update never raises, stores the raw data, and leaves the flag and the peak
  indices as they were.
\<close>

lemma setTIC_latched:
  assumes "\<not> existTIC w"
  shows "\<exists>w'. setTIC tk c w = Inr w' \<and> \<not> existTIC w' \<and> peak_indices w' = peak_indices w \<and>
           peak_labels w' = [] \<and> rts w' = fst c \<and> ints w' = snd c"
  using assms by (auto simp: setTIC_def Let_def checkExistTIC_def clear_labels_def)

lemma setTIC_empty:
  "\<exists>w'. setTIC tk ([], i) w = Inr w' \<and> \<not> existTIC w' \<and> peak_indices w' = peak_indices w"
  by (auto simp: setTIC_def Let_def checkExistTIC_def clear_labels_def)

text \<open>
  Claim C4 at the updates A, empty, B on a new widget, with A of intensities 1, 2, 1, 4, 1
  and B of intensities 4, 1, 1, 2, 1. The empty update sets \<^verbatim>\<open>_existTIC\<close> to False and
  nothing sets it to True again, so the update with B rebuilds nothing: the peak indices
  are still those of A (3 and 1, where B has its peaks at 0 and 3), the intensities are
  the raw ones of B, and no label is placed. The next change of the visible range then
  puts labels at the peak indices of A. A new widget updated with B alone has the peaks
  0 and 3 and their labels.
\<close>

theorem setTIC_after_empty_update:
  "(case setTICs (example_toolkit (0, 10))
           [([60, 120, 180, 240, 300], [1, 2, 1, 4, 1]), ([], []),
            ([60, 120, 180, 240, 300], [4, 1, 1, 2, 1])] init_tic of
      Inl e \<Rightarrow> False
    | Inr w \<Rightarrow>
        \<not> existTIC w \<and> peak_indices w = [3, 1] \<and> peak_labels w = [] \<and>
        ints w = [4, 1, 1, 2, 1] \<and> rts w = [60, 120, 180, 240, 300] \<and>
        (case autoscaleYAxis (example_toolkit (0, 1000)) w of
           Inl e \<Rightarrow> False
         | Inr w' \<Rightarrow> map fst (peak_labels w') = [3, 1])) \<and>
   (case setTIC (example_toolkit (0, 10)) ([60, 120, 180, 240, 300], [4, 1, 1, 2, 1]) init_tic of
      Inl e \<Rightarrow> False
    | Inr w \<Rightarrow> existTIC w \<and> peak_indices w = [0, 3] \<and> map fst (peak_labels w) = [0, 3] \<and>
        ints w = [100, 25, 25, 50, 25])"
  by code_simp

end
